theory Spec2Isabelle
  imports Main "HOL-Library.Multiset"
begin

section \<open>gofixunkeyedcomposites: data model\<close>

text \<open>
  The program (\<^verbatim>\<open>src/main.go\<close>) adds field names to positional struct literals of a
  Go file. Bytes are \<^typ>\<open>char\<close>s (a \<^typ>\<open>string\<close> is a \<^verbatim>\<open>[]byte\<close>), positions and
  offsets are natural numbers, and every error return or panic is the \<open>Inl\<close> branch of a
  sum.
\<close>

text \<open>An error value is a panic, an ordinary \<^verbatim>\<open>error\<close> with its message, or a
  \<^verbatim>\<open>scanner.ErrorList\<close> with the messages of its entries.\<close>

datatype error = Panic string | Err string | ErrorList "string list"

subsection \<open>Resolved types (package go/types)\<close>

text \<open>
  Only the shapes that \<^verbatim>\<open>assertStructType\<close> distinguishes carry structure: a pointer
  with its element type, a named type with the result of \<^verbatim>\<open>Underlying()\<close>, and a
  struct with its fields (name and type) in declared order.
\<close>

datatype gotype =
    Basic string
  | Pointer gotype
  | Named string gotype
  | Struct "(string \<times> gotype) list"
  | Slice gotype
  | Array nat gotype
  | Map gotype gotype

type_synonym field = "string \<times> gotype"

definition NumFields :: "field list \<Rightarrow> nat" where
  "NumFields s = length s"

definition Name :: "field \<Rightarrow> string" where
  "Name f = fst f"

text \<open>\<^verbatim>\<open>assertStructType\<close>, lines 269-278: one pointer, then one named type, then the
  struct test.\<close>

definition assertStructType :: "gotype \<Rightarrow> field list option" where
  "assertStructType typ =
     (let typ1 = (case typ of Pointer p \<Rightarrow> p | _ \<Rightarrow> typ);
          typ2 = (case typ1 of Named n u \<Rightarrow> u | _ \<Rightarrow> typ1)
      in case typ2 of Struct s \<Rightarrow> Some s | _ \<Rightarrow> None)"

subsection \<open>Syntax tree (package go/ast)\<close>

text \<open>
  A composite literal has its optional type expression, the position of its left brace
  and its elements; a key-value expression has key and value; every other node is
  \<open>Node p cs\<close> with its start position and its children in the order \<^verbatim>\<open>ast.Walk\<close>
  visits them. The start position of a literal is that of its type expression, or of
  the brace when the type is elided; that of a key-value expression is its key's.
\<close>

datatype node =
    CompositeLit "node option" nat "node list"
  | KeyValueExpr node node
  | Node nat "node list"

fun Pos :: "node \<Rightarrow> nat" where
  "Pos (CompositeLit (Some t) lbrace elts) = Pos t"
| "Pos (CompositeLit None lbrace elts) = lbrace"
| "Pos (KeyValueExpr k v) = Pos k"
| "Pos (Node p cs) = p"

fun isKeyValueExpr :: "node \<Rightarrow> bool" where
  "isKeyValueExpr (KeyValueExpr k v) = True"
| "isKeyValueExpr _ = False"

subsection \<open>The visitor\<close>

text \<open>
  \<^verbatim>\<open>chunk\<close> (lines 192-195) and \<^verbatim>\<open>visitor\<close> (lines 197-205). The \<^verbatim>\<open>*token.File\<close> is
  library code; it is represented by its \<^verbatim>\<open>Offset\<close> method, which may panic on a
  position outside the file. \<^verbatim>\<open>types\<close> is the table \<^verbatim>\<open>info.Types\<close> filled by the type
  checker, keyed by expression node; the nodes of one file set differ in their
  positions, so a node stands for its own identity. \<^verbatim>\<open>in\<close> is \<open>None\<close> for the nil
  slice.
\<close>

record chunk =
  chunk_offset :: nat
  chunk_b :: string

record visitor =
  v_file :: "nat \<Rightarrow> error + nat"
  v_types :: "node \<rightharpoonup> gotype"
  v_in :: "string option"
  v_added :: "chunk list"
  v_fixed :: bool

text \<open>\<^verbatim>\<open>writeAfter\<close>, lines 224-226.\<close>

definition writeAfter :: "visitor \<Rightarrow> nat \<Rightarrow> string \<Rightarrow> error + visitor" where
  "writeAfter v pos s =
     (case v_file v pos of
        Inl e \<Rightarrow> Inl e
      | Inr off \<Rightarrow> Inr (v\<lparr>v_added := v_added v @ [\<lparr>chunk_offset = off, chunk_b = s\<rparr>]\<rparr>))"

text \<open>The loop of lines 259-261, started at \<open>i\<close>. Indexing \<^verbatim>\<open>lit.Elts[i]\<close> and
  \<^verbatim>\<open>s.Field(i)\<close> out of range panics.\<close>

function key_loop :: "visitor \<Rightarrow> node list \<Rightarrow> field list \<Rightarrow> nat \<Rightarrow> error + visitor" where
  "key_loop v elts s i =
     (if i < NumFields s then
        (if length elts \<le> i then Inl (Panic ''index out of range'')
         else case writeAfter v (Pos (elts ! i)) (Name (s ! i) @ '': '') of
                Inl e \<Rightarrow> Inl e
              | Inr v' \<Rightarrow> key_loop v' elts s (Suc i))
      else Inr v)"
  by pat_completeness auto
termination
  by (relation "measure (\<lambda>(v, elts, s, i). NumFields s - i)") auto

declare key_loop.simps [simp del]

text \<open>\<^verbatim>\<open>Visit\<close>, lines 228-267. It always returns the visitor itself, so the walk
  continues below every node; the model returns the updated visitor state.\<close>

definition Visit :: "visitor \<Rightarrow> node \<Rightarrow> error + visitor" where
  "Visit v n =
     (case n of
        CompositeLit t lbrace elts \<Rightarrow>
          (case v_types v n of
             None \<Rightarrow> Inr v
           | Some typ \<Rightarrow>
               (case assertStructType typ of
                  None \<Rightarrow> Inr v
                | Some s \<Rightarrow>
                    if NumFields s = 0 then Inr v
                    else if length elts \<noteq> NumFields s then Inr v
                    else if length elts > 0 \<and> isKeyValueExpr (elts ! 0) then Inr v
                    else
                      (case (if v_in v \<noteq> None then key_loop v elts s 0 else Inr v) of
                         Inl e \<Rightarrow> Inl e
                       | Inr v' \<Rightarrow> Inr (v'\<lparr>v_fixed := True\<rparr>))))
      | _ \<Rightarrow> Inr v)"

text \<open>\<^verbatim>\<open>ast.Walk(v, file)\<close>, line 174: pre-order, the type expression of a literal
  before its elements. The final \<^verbatim>\<open>v.Visit(nil)\<close> of each level changes nothing, since
  nil is not a composite literal.\<close>

fun Walk :: "visitor \<Rightarrow> node \<Rightarrow> error + visitor"
  and walkList :: "visitor \<Rightarrow> node list \<Rightarrow> error + visitor" where
  "Walk v (CompositeLit t lbrace elts) =
     (case Visit v (CompositeLit t lbrace elts) of
        Inl e \<Rightarrow> Inl e
      | Inr v1 \<Rightarrow>
          (case t of
             None \<Rightarrow> walkList v1 elts
           | Some ty \<Rightarrow>
               (case Walk v1 ty of Inl e \<Rightarrow> Inl e | Inr v2 \<Rightarrow> walkList v2 elts)))"
| "Walk v (KeyValueExpr k x) =
     (case Visit v (KeyValueExpr k x) of
        Inl e \<Rightarrow> Inl e
      | Inr v1 \<Rightarrow> (case Walk v1 k of Inl e \<Rightarrow> Inl e | Inr v2 \<Rightarrow> Walk v2 x))"
| "Walk v (Node p cs) =
     (case Visit v (Node p cs) of Inl e \<Rightarrow> Inl e | Inr v1 \<Rightarrow> walkList v1 cs)"
| "walkList v [] = Inr v"
| "walkList v (n # ns) =
     (case Walk v n of Inl e \<Rightarrow> Inl e | Inr v1 \<Rightarrow> walkList v1 ns)"

subsection \<open>The patch applier\<close>

text \<open>
  A slice expression \<^verbatim>\<open>a[lo:hi]\<close> panics unless \<open>lo \<le> hi \<le> length a\<close>. Go lets
  \<open>hi\<close> reach the capacity of the slice; an offset of \<^verbatim>\<open>out\<close> between the length and
  the capacity of \<^verbatim>\<open>v.in\<close> then makes the last expression \<^verbatim>\<open>v.in[offset:]\<close> panic
  instead, so \<^verbatim>\<open>out\<close> panics on the same inputs either way.
\<close>

definition slice :: "'a list \<Rightarrow> nat \<Rightarrow> nat \<Rightarrow> error + 'a list" where
  "slice a lo hi =
     (if lo \<le> hi \<and> hi \<le> length a then Inr (take (hi - lo) (drop lo a))
      else Inl (Panic ''slice bounds out of range''))"

text \<open>The loop of lines 214-219 with its two variables \<^verbatim>\<open>out\<close> and \<^verbatim>\<open>offset\<close>.\<close>

fun out_loop :: "string \<Rightarrow> chunk list \<Rightarrow> string \<Rightarrow> nat \<Rightarrow> error + string" where
  "out_loop inp [] out offset =
     (case slice inp offset (length inp) of
        Inl e \<Rightarrow> Inl e
      | Inr rest \<Rightarrow> Inr (out @ rest))"
| "out_loop inp (c # cs) out offset =
     (case slice inp offset (chunk_offset c) of
        Inl e \<Rightarrow> Inl e
      | Inr seg \<Rightarrow> out_loop inp cs (out @ seg @ chunk_b c) (chunk_offset c))"

text \<open>
  \<^verbatim>\<open>visitor.out\<close>, lines 207-222. \<^verbatim>\<open>sort.Slice\<close> is library code and not stable; it is
  the parameter \<open>srt\<close>, of which \<open>sort_Slice\<close> states the contract: the result is a
  permutation of the argument in which no later chunk has a smaller offset than an
  earlier one.
\<close>

definition out :: "(chunk list \<Rightarrow> chunk list) \<Rightarrow> visitor \<Rightarrow> error + string" where
  "out srt v =
     out_loop (case v_in v of None \<Rightarrow> [] | Some bs \<Rightarrow> bs) (srt (v_added v)) [] 0"

definition sort_Slice :: "(chunk list \<Rightarrow> chunk list) \<Rightarrow> bool" where
  "sort_Slice srt =
     (\<forall>cs. mset (srt cs) = mset cs \<and>
           sorted_wrt (\<lambda>x y. \<not> chunk_offset y < chunk_offset x) (srt cs))"

section \<open>The command: \<^verbatim>\<open>fixFile\<close> and \<^verbatim>\<open>main\<close>\<close>

subsection \<open>The environment\<close>

text \<open>
  A parsed file (\<^verbatim>\<open>*ast.File\<close>) is its package name \<^verbatim>\<open>file.Name.Name\<close>, the tree that
  \<^verbatim>\<open>ast.Walk\<close> traverses, and the \<^verbatim>\<open>*token.File\<close> that
  \<^verbatim>\<open>fset.File(file.Pos())\<close> finds for it. A package is its \<^verbatim>\<open>Files\<close> map, and
  \<^verbatim>\<open>parser.ParseDir\<close> returns a map from package names to packages; both are association
  lists.
\<close>

record ast_File =
  f_Name :: string
  f_node :: node
  f_File :: "nat \<Rightarrow> error + nat"

type_synonym package = "(string \<times> ast_File) list"

type_synonym pkgs = "(string \<times> package) list"

text \<open>
  The state of the outside world: the bytes of standard input, what has been written to
  standard output, the lines written to standard error, and the disk as a map from
  resolved paths to file contents.
\<close>

record world =
  w_stdin :: string
  w_stdout :: string
  w_stderr :: "string list"
  w_disk :: "string \<rightharpoonup> string"

text \<open>
  The library and operating system functions the program calls. \<open>ParseDir\<close> reads the
  disk. \<open>ParseFile\<close> is given the reader's contents. \<open>NewPackage\<close> always builds the
  package and may return an error with it. \<open>Check\<close> returns the type checker's error
  and the table \<^verbatim>\<open>info.Types\<close> it filled. \<open>Source\<close> is \<^verbatim>\<open>format.Source\<close>.
  \<open>Stdout_Write\<close> gives, for bytes sent to standard output, the bytes accepted and the
  error of the write. \<open>resolve\<close> is the operating system's resolution of a path to the
  file it names, \<open>WriteFile_err\<close> the failure of a write to a path, if any.
\<close>

record ext =
  ParseDir :: "(string \<rightharpoonup> string) \<Rightarrow> string \<Rightarrow> error + pkgs"
  ParseFile :: "string option \<Rightarrow> error + ast_File"
  NewPackage :: "package \<Rightarrow> error option"
  Check :: "string \<Rightarrow> ast_File list \<Rightarrow> error option \<times> (node \<rightharpoonup> gotype)"
  Getwd :: "error + string"
  Source :: "string \<Rightarrow> error + string"
  sortSlice :: "chunk list \<Rightarrow> chunk list"
  Abs :: "string \<Rightarrow> error + string"
  Dir :: "string \<Rightarrow> string"
  Clean :: "string \<Rightarrow> string"
  Stdout_Write :: "string \<Rightarrow> string \<times> error option"
  resolve :: "string \<Rightarrow> string"
  WriteFile_err :: "string \<Rightarrow> error option"

text \<open>\<^verbatim>\<open>ioutil.ReadFile\<close>: the empty path names no file.\<close>

definition ReadFile :: "ext \<Rightarrow> world \<Rightarrow> string \<Rightarrow> error + string" where
  "ReadFile e wld path =
     (if path = [] then Inl (Err ''open : no such file or directory'')
      else case w_disk wld (resolve e path) of
             None \<Rightarrow> Inl (Err (''open '' @ path @ '': no such file or directory''))
           | Some bs \<Rightarrow> Inr bs)"

text \<open>\<^verbatim>\<open>ioutil.WriteFile\<close>.\<close>

definition WriteFile :: "ext \<Rightarrow> world \<Rightarrow> string \<Rightarrow> string \<Rightarrow> error + world" where
  "WriteFile e wld path data =
     (case WriteFile_err e path of
        Some err \<Rightarrow> Inl err
      | None \<Rightarrow> Inr (wld\<lparr>w_disk := (w_disk wld)(resolve e path \<mapsto> data)\<rparr>))"

text \<open>The \<^verbatim>\<open>io.Writer\<close> handed to \<^verbatim>\<open>fixFile\<close> is nil (\<open>None\<close>), \<^verbatim>\<open>os.Stdout\<close> or a
  \<^verbatim>\<open>bytes.Buffer\<close>. \<open>Copy\<close> is \<^verbatim>\<open>io.Copy\<close> into it: the bytes the writer took and the
  error.\<close>

datatype writer = Stdout | Buffer

definition Copy :: "ext \<Rightarrow> writer \<Rightarrow> string \<Rightarrow> string \<times> error option" where
  "Copy e w data = (case w of Buffer \<Rightarrow> (data, None) | Stdout \<Rightarrow> Stdout_Write e data)"

subsection \<open>Finding the package\<close>

text \<open>\<^verbatim>\<open>findPkgForFile\<close>, lines 280-290.\<close>

fun findFile :: "package \<Rightarrow> string \<Rightarrow> ast_File option" where
  "findFile [] p = None"
| "findFile ((fileName, file) # fs) p =
     (if fileName = p then Some file else findFile fs p)"

fun findPkgForFile :: "ext \<Rightarrow> pkgs \<Rightarrow> string \<Rightarrow> (package \<times> ast_File) option" where
  "findPkgForFile e [] path = None"
| "findPkgForFile e ((pkgName, pkg) # ps) path =
     (case findFile pkg (Clean e path) of
        Some file \<Rightarrow> Some (pkg, file)
      | None \<Rightarrow> findPkgForFile e ps path)"

text \<open>\<^verbatim>\<open>findPkgForStdinFile\<close>, lines 292-299.\<close>

fun findPkgForStdinFile :: "pkgs \<Rightarrow> ast_File \<Rightarrow> package option" where
  "findPkgForStdinFile [] stdinFile = None"
| "findPkgForStdinFile ((pkgName, pkg) # ps) stdinFile =
     (if pkgName = f_Name stdinFile then Some pkg else findPkgForStdinFile ps stdinFile)"

subsection \<open>\<^verbatim>\<open>fixFile\<close>\<close>

text \<open>Lines 108-143: the package and the file to fix.\<close>

definition loadFile :: "ext \<Rightarrow> world \<Rightarrow> string option \<Rightarrow> string \<Rightarrow> error + package \<times> ast_File" where
  "loadFile e wld r path =
     (let dir = (if path \<noteq> [] then Dir e path else ''.'')
      in case ParseDir e (w_disk wld) dir of
           Inl err \<Rightarrow> Inl err
         | Inr pkgs \<Rightarrow>
             if path = [] then
               (case ParseFile e r of
                  Inl err \<Rightarrow> Inl err
                | Inr file \<Rightarrow>
                    (case findPkgForStdinFile pkgs file of
                       Some pkg \<Rightarrow> Inr (pkg, file)
                     | None \<Rightarrow>
                         (case NewPackage e [(''stdin.go'', file)] of
                            Some err \<Rightarrow> Inl err
                          | None \<Rightarrow> Inr ([(''stdin.go'', file)], file))))
             else
               (case findPkgForFile e pkgs path of
                  None \<Rightarrow> Inl (Err (path @ '': not a Go file within a package''))
                | Some pf \<Rightarrow> Inr pf))"

text \<open>Lines 176-187: format the patched bytes and copy them to the writer. The result is
  paired with the bytes the writer took.\<close>

definition emit :: "ext \<Rightarrow> writer \<Rightarrow> visitor \<Rightarrow> (error + bool) \<times> string" where
  "emit e w v =
     (case out (sortSlice e) v of
        Inl err \<Rightarrow> (Inl err, [])
      | Inr patched \<Rightarrow>
          (case Source e patched of
             Inl err \<Rightarrow> (Inl err, [])
           | Inr formatted \<Rightarrow>
               (case Copy e w formatted of
                  (written, Some err) \<Rightarrow> (Inl err, written)
                | (written, None) \<Rightarrow> (Inr (v_fixed v), written))))"

text \<open>\<^verbatim>\<open>fixFile\<close>, lines 107-190. The error that \<^verbatim>\<open>cfg.Check\<close> returns is dropped
  (line 164).\<close>

definition fixFile ::
  "ext \<Rightarrow> world \<Rightarrow> writer option \<Rightarrow> string option \<Rightarrow> string \<Rightarrow> (error + bool) \<times> string" where
  "fixFile e wld w r path =
     (case loadFile e wld r path of
        Inl err \<Rightarrow> (Inl err, [])
      | Inr (pkg, file) \<Rightarrow>
          (case Getwd e of
             Inl err \<Rightarrow> (Inl err, [])
           | Inr cwd \<Rightarrow>
               (let v = \<lparr>v_file = f_File file, v_types = snd (Check e cwd (map snd pkg)),
                         v_in = None, v_added = [], v_fixed = False\<rparr>
                in case (if w \<noteq> None
                         then (case ReadFile e wld path of
                                 Inl err \<Rightarrow> Inl err
                               | Inr bs \<Rightarrow> Inr (v\<lparr>v_in := Some bs\<rparr>))
                         else Inr v) of
                     Inl err \<Rightarrow> (Inl err, [])
                   | Inr v1 \<Rightarrow>
                       (case Walk v1 (f_node file) of
                          Inl err \<Rightarrow> (Inl err, [])
                        | Inr v2 \<Rightarrow>
                            (case w of
                               None \<Rightarrow> (Inr (v_fixed v2), [])
                             | Some wr \<Rightarrow> emit e wr v2)))))"

subsection \<open>\<^verbatim>\<open>main\<close>\<close>

text \<open>\<^verbatim>\<open>reportErrs\<close>, lines 95-105, for one error.\<close>

definition reportErrs :: "error \<Rightarrow> world \<Rightarrow> world" where
  "reportErrs err wld =
     (case err of
        ErrorList errs \<Rightarrow> wld\<lparr>w_stderr := w_stderr wld @ errs\<rparr>
      | Err m \<Rightarrow> wld\<lparr>w_stderr := w_stderr wld @ [m]\<rparr>
      | Panic m \<Rightarrow> wld\<lparr>w_stderr := w_stderr wld @ [m]\<rparr>)"

text \<open>An error is reported and the process exits with status 1; a panic ends the
  process with status 2 and its message on standard error.\<close>

definition fatal :: "error \<Rightarrow> world \<Rightarrow> nat \<times> world" where
  "fatal err wld =
     (case err of
        Panic m \<Rightarrow> (2, wld\<lparr>w_stderr := w_stderr wld @ [''panic: '' @ m]\<rparr>)
      | _ \<Rightarrow> (1, reportErrs err wld))"

text \<open>\<^verbatim>\<open>fmt.Println\<close> on standard output; the error of the write is not looked at.\<close>

definition Println :: "ext \<Rightarrow> string \<Rightarrow> world \<Rightarrow> world" where
  "Println e s wld = wld\<lparr>w_stdout := w_stdout wld @ fst (Stdout_Write e (s @ [CHR 0x0A]))\<rparr>"

text \<open>What \<^verbatim>\<open>fixFile\<close> wrote reaches standard output when the writer is
  \<^verbatim>\<open>os.Stdout\<close>.\<close>

definition written_to :: "writer option \<Rightarrow> string \<Rightarrow> world \<Rightarrow> world" where
  "written_to w bs wld =
     (if w = Some Stdout then wld\<lparr>w_stdout := w_stdout wld @ bs\<rparr> else wld)"

text \<open>The loop of lines 52-83 over the paths.\<close>

fun main_paths :: "ext \<Rightarrow> bool \<Rightarrow> bool \<Rightarrow> string list \<Rightarrow> world \<Rightarrow> nat \<times> world" where
  "main_paths e overwrite list [] wld = (0, wld)"
| "main_paths e overwrite list (path # rest) wld =
     (let w = (if overwrite then Some Buffer else if \<not> list then Some Stdout else None)
      in case Abs e path of
           Inl err \<Rightarrow> fatal err wld
         | Inr absPath \<Rightarrow>
             (case fixFile e wld w None absPath of
                (res, buf) \<Rightarrow>
                  (let wld1 = written_to w buf wld
                   in case res of
                        Inl err \<Rightarrow> fatal err wld1
                      | Inr fixed \<Rightarrow>
                          (let wld2 = (if fixed \<and> list then Println e path wld1 else wld1)
                           in if overwrite then
                                (case WriteFile e wld2 path buf of
                                   Inl err \<Rightarrow> fatal err wld2
                                 | Inr wld3 \<Rightarrow> main_paths e overwrite list rest wld3)
                              else main_paths e overwrite list rest wld2))))"

text \<open>\<^verbatim>\<open>main\<close>, lines 30-84, after the flags \<^verbatim>\<open>-w\<close> and \<^verbatim>\<open>-l\<close> have been parsed. The
  result is the exit status and the world.\<close>

definition main :: "ext \<Rightarrow> bool \<Rightarrow> bool \<Rightarrow> string list \<Rightarrow> world \<Rightarrow> nat \<times> world" where
  "main e overwrite list paths wld =
     (if length paths = 0 then
        (if overwrite then
           (1, wld\<lparr>w_stderr := w_stderr wld @ [''can't use -w on stdin'']\<rparr>)
         else
           (let w = (if \<not> list then Some Stdout else None)
            in case fixFile e wld w (Some (w_stdin wld)) [] of
                 (res, buf) \<Rightarrow>
                   (let wld1 = written_to w buf wld
                    in case res of
                         Inl err \<Rightarrow> fatal err wld1
                       | Inr fixed \<Rightarrow>
                           (if fixed \<and> list then (0, Println e ''<standard input>'' wld1)
                            else (0, wld1)))))
      else main_paths e overwrite list paths wld)"

section \<open>Specification-level notions\<close>

subsection \<open>Insertion of texts\<close>

text \<open>The text of an edit put into a byte sequence immediately before the byte at the
  edit's offset; nothing is deleted.\<close>

definition insert_chunk :: "chunk \<Rightarrow> string \<Rightarrow> string" where
  "insert_chunk c bs = take (chunk_offset c) bs @ chunk_b c @ drop (chunk_offset c) bs"

text \<open>All edits of a list put into the original, the last edit of the list first, so
  that no insertion moves the place of one still to come when the offsets ascend.\<close>

definition insert_all :: "chunk list \<Rightarrow> string \<Rightarrow> string" where
  "insert_all cs orig = foldr insert_chunk cs orig"

subsection \<open>The Patch Applier as the specification words it\<close>

text \<open>
  The scan with a cursor: for each edit, the original bytes from the cursor up to, not
  including, the edit's offset, then the edit's text, the cursor moving to the offset;
  after the last edit the original bytes from the cursor to the end.
\<close>

fun scan :: "string \<Rightarrow> nat \<Rightarrow> chunk list \<Rightarrow> string" where
  "scan orig cursor [] = drop cursor orig"
| "scan orig cursor (c # cs) =
     take (chunk_offset c - cursor) (drop cursor orig) @ chunk_b c
       @ scan orig (chunk_offset c) cs"

definition Patch_Applier :: "(chunk list \<Rightarrow> chunk list) \<Rightarrow> string \<Rightarrow> chunk list \<Rightarrow> string" where
  "Patch_Applier srt orig edits = scan orig 0 (srt edits)"

subsection \<open>The Eligibility Classifier as the specification words it\<close>

text \<open>Rules 1 to 5: the resolved type, unwrapped from one reference and one named
  type, must be a field record; it must have fields; as many as the literal has
  elements; and the first element must not be a field-to-value association. The
  result is the field list, or \<open>None\<close> for not eligible.\<close>

definition unwrap_reference :: "gotype \<Rightarrow> gotype" where
  "unwrap_reference ty = (case ty of Pointer p \<Rightarrow> p | _ \<Rightarrow> ty)"

definition unwrap_named :: "gotype \<Rightarrow> gotype" where
  "unwrap_named ty = (case ty of Named n u \<Rightarrow> u | _ \<Rightarrow> ty)"

definition Classifier :: "gotype option \<Rightarrow> node \<Rightarrow> field list option" where
  "Classifier resolved lit =
     (case lit of
        CompositeLit t lbrace elts \<Rightarrow>
          (case resolved of
             None \<Rightarrow> None
           | Some ty \<Rightarrow>
               (case unwrap_named (unwrap_reference ty) of
                  Struct fs \<Rightarrow>
                    if fs = [] then None
                    else if length elts \<noteq> length fs then None
                    else if elts \<noteq> [] \<and> isKeyValueExpr (hd elts) then None
                    else Some fs
                | _ \<Rightarrow> None))
      | _ \<Rightarrow> None)"

text \<open>All nodes of a tree, in the order of the walk.\<close>

fun nodes :: "node \<Rightarrow> node list" and nodesList :: "node list \<Rightarrow> node list" where
  "nodes (CompositeLit t lbrace elts) =
     CompositeLit t lbrace elts
       # (case t of None \<Rightarrow> [] | Some ty \<Rightarrow> nodes ty) @ nodesList elts"
| "nodes (KeyValueExpr k x) = KeyValueExpr k x # nodes k @ nodes x"
| "nodes (Node p cs) = Node p cs # nodesList cs"
| "nodesList [] = []"
| "nodesList (n # ns) = nodes n @ nodesList ns"

text \<open>At least one of the nodes \<open>ns\<close> is an eligible literal under the type table.\<close>

definition any_eligible :: "(node \<rightharpoonup> gotype) \<Rightarrow> node list \<Rightarrow> bool" where
  "any_eligible tys ns = (\<exists>lit \<in> set ns. Classifier (tys lit) lit \<noteq> None)"

text \<open>What a traversal may do to the visitor: \<open>v'\<close> has the file, the type table and
  the input of \<open>v\<close>, its flag is that of \<open>v\<close> or \<open>b\<close>, and while the flag is unset
  nothing at all has changed.\<close>

definition carries :: "visitor \<Rightarrow> visitor \<Rightarrow> bool \<Rightarrow> bool" where
  "carries v v' b =
     (v_file v' = v_file v \<and> v_types v' = v_types v \<and> v_in v' = v_in v
      \<and> v_fixed v' = (v_fixed v \<or> b) \<and> (\<not> v_fixed v' \<longrightarrow> v' = v))"

subsection \<open>The patched text read again\<close>


section \<open>Example inputs\<close>

text \<open>
  A file \<^verbatim>\<open>/p/a.go\<close> of package \<^verbatim>\<open>p\<close> with a record type of two fields and one
  positional literal of it. The text is in \<^verbatim>\<open>gofmt\<close> layout, but its last line has no
  newline. Positions are offsets plus the file's base 1.
\<close>

definition ex_src :: string where
  "ex_src = ''package p'' @ [CHR 0x0A, CHR 0x0A] @ ''type T struct{ X, Y int }''
              @ [CHR 0x0A, CHR 0x0A] @ ''var _ = T{1, 2}''"

definition ex_patched :: string where
  "ex_patched = ''package p'' @ [CHR 0x0A, CHR 0x0A] @ ''type T struct{ X, Y int }''
              @ [CHR 0x0A, CHR 0x0A] @ ''var _ = T{X: 1, Y: 2}''"

definition ex_T :: gotype where
  "ex_T = Named ''T'' (Struct [(''X'', Basic ''int''), (''Y'', Basic ''int'')])"

definition ex_lit :: node where
  "ex_lit = CompositeLit (Some (Node 47 [])) 48 [Node 49 [], Node 52 []]"

definition ex_root :: node where
  "ex_root =
     Node 1 [Node 9 [],
             Node 12 [Node 17 [Node 17 [],
                               Node 19 [Node 25 [Node 27 [Node 27 [], Node 30 [], Node 32 []]]]]],
             Node 39 [Node 43 [Node 43 [], ex_lit]]]"

definition ex_types :: "node \<rightharpoonup> gotype" where
  "ex_types = [ex_lit \<mapsto> ex_T]"

text \<open>The \<^verbatim>\<open>token.File\<close> of a file with the given base and size.\<close>

definition ex_Offset :: "nat \<Rightarrow> nat \<Rightarrow> nat \<Rightarrow> error + nat" where
  "ex_Offset base sz p =
     (if p < base \<or> p > base + sz then Inl (Panic ''illegal Pos value'') else Inr (p - base))"

definition ex_file :: ast_File where
  "ex_file = \<lparr>f_Name = ''p'', f_node = ex_root, f_File = ex_Offset 1 53\<rparr>"

definition ex_v :: visitor where
  "ex_v = \<lparr>v_file = ex_Offset 1 53, v_types = ex_types, v_in = Some ex_src,
           v_added = [], v_fixed = False\<rparr>"

text \<open>What \<^verbatim>\<open>format.Source\<close> does to the texts of this section, which are in its
  layout but for the end: it returns them ending in a newline.\<close>

definition ex_Source :: "string \<Rightarrow> error + string" where
  "ex_Source bs = Inr (if bs \<noteq> [] \<and> last bs = CHR 0x0A then bs else bs @ [CHR 0x0A])"

text \<open>The text \<^verbatim>\<open>package p\<close> on standard input, parsed into the file set after
  \<^verbatim>\<open>/p/a.go\<close>, so with base 55.\<close>

definition ex_stdin_file :: ast_File where
  "ex_stdin_file = \<lparr>f_Name = ''p'', f_node = Node 55 [Node 63 []], f_File = ex_Offset 55 9\<rparr>"

definition ex_ext :: ext where
  "ex_ext =
     \<lparr>ParseDir = (\<lambda>disk dir. Inr [(''p'', [(''/p/a.go'', ex_file)])]),
      ParseFile = (\<lambda>r. Inr ex_stdin_file),
      NewPackage = (\<lambda>pkg. None),
      Check = (\<lambda>cwd fs. (None, ex_types)),
      Getwd = Inr ''/p'',
      Source = ex_Source,
      sortSlice = sort_key chunk_offset,
      Abs = (\<lambda>path. Inr (''/p/'' @ path)),
      Dir = (\<lambda>path. ''/p''),
      Clean = (\<lambda>path. path),
      Stdout_Write = (\<lambda>bs. (bs, None)),
      resolve = (\<lambda>path. ''/p/a.go''),
      WriteFile_err = (\<lambda>path. None)\<rparr>"

definition ex_world :: world where
  "ex_world = \<lparr>w_stdin = ''package p'', w_stdout = [], w_stderr = [],
                w_disk = [''/p/a.go'' \<mapsto> ex_src]\<rparr>"

text \<open>The patched text as the parser reads it again: both elements behind their keys,
  the second shifted by the first insertion.\<close>

definition ex_lit2 :: node where
  "ex_lit2 = CompositeLit (Some (Node 47 [])) 48
               [KeyValueExpr (Node 49 []) (Node 52 []), KeyValueExpr (Node 55 []) (Node 58 [])]"


text \<open>A literal of a slice type, \<^verbatim>\<open>[]int{1, 2, 3}\<close> behind \<^verbatim>\<open>var _ = \<close>.\<close>

definition ex_slice_lit :: node where
  "ex_slice_lit = CompositeLit (Some (Node 9 [Node 11 []])) 14 [Node 15 [], Node 18 [], Node 21 []]"

text \<open>A file \<^verbatim>\<open>/p/a.go\<close> that is only the package clause, without a final newline; the
  same text on standard input.\<close>

definition ex_plain_file :: ast_File where
  "ex_plain_file = \<lparr>f_Name = ''p'', f_node = Node 1 [Node 9 []], f_File = ex_Offset 1 9\<rparr>"

definition ex_plain_stdin_file :: ast_File where
  "ex_plain_stdin_file =
     \<lparr>f_Name = ''p'', f_node = Node 11 [Node 19 []], f_File = ex_Offset 11 9\<rparr>"

definition ex_plain_ext :: ext where
  "ex_plain_ext =
     ex_ext\<lparr>ParseDir := (\<lambda>disk dir. Inr [(''p'', [(''/p/a.go'', ex_plain_file)])]),
            ParseFile := (\<lambda>r. Inr ex_plain_stdin_file),
            Check := (\<lambda>cwd fs. (None, Map.empty))\<rparr>"

definition ex_plain_world :: world where
  "ex_plain_world = \<lparr>w_stdin = ''package p'', w_stdout = [], w_stderr = [],
                      w_disk = [''/p/a.go'' \<mapsto> ''package p'']\<rparr>"

section \<open>Properties of the classifier and the patch builder\<close>

subsection \<open>The struct test\<close>

lemma assertStructType_cases:
  "assertStructType (Struct s) = Some s"
  "assertStructType (Named n (Struct s)) = Some s"
  "assertStructType (Pointer (Struct s)) = Some s"
  "assertStructType (Pointer (Named n (Struct s))) = Some s"
  "assertStructType (Pointer (Pointer t)) = None"
  "assertStructType (Named n (Named m t)) = None"
  "assertStructType (Slice t) = None"
  by (simp_all add: assertStructType_def)

lemma assertStructType_unwrap:
  "assertStructType typ =
     (case unwrap_named (unwrap_reference typ) of Struct s \<Rightarrow> Some s | _ \<Rightarrow> None)"
  by (simp add: assertStructType_def unwrap_named_def unwrap_reference_def Let_def)

subsection \<open>\<^verbatim>\<open>Visit\<close> against the Classifier\<close>

lemma Visit_CompositeLit:
  "Visit v (CompositeLit t lbrace elts) =
     (case Classifier (v_types v (CompositeLit t lbrace elts)) (CompositeLit t lbrace elts) of
        None \<Rightarrow> Inr v
      | Some fs \<Rightarrow>
          (case (if v_in v \<noteq> None then key_loop v elts fs 0 else Inr v) of
             Inl e \<Rightarrow> Inl e
           | Inr v' \<Rightarrow> Inr (v'\<lparr>v_fixed := True\<rparr>)))"
proof (cases "v_types v (CompositeLit t lbrace elts)")
  case None
  then show ?thesis by (simp add: Visit_def Classifier_def)
next
  case (Some ty)
  show ?thesis
  proof (cases "unwrap_named (unwrap_reference ty)")
    case (Struct fs)
    show ?thesis
    proof (cases elts)
      case Nil
      then show ?thesis
        using Some Struct
        by (simp add: Visit_def Classifier_def assertStructType_unwrap NumFields_def)
    next
      case (Cons x xs)
      then show ?thesis
        using Some Struct
        by (simp add: Visit_def Classifier_def assertStructType_unwrap NumFields_def)
    qed
  qed (simp_all add: Some Visit_def Classifier_def assertStructType_unwrap)
qed

lemma Visit_Classifier_None:
  "Classifier (v_types v n) n = None \<Longrightarrow> Visit v n = Inr v"
proof (cases n)
  case (CompositeLit t lbrace elts)
  assume "Classifier (v_types v n) n = None"
  then show ?thesis using CompositeLit by (simp add: Visit_CompositeLit)
qed (simp_all add: Visit_def)

lemma Visit_Classifier_Some:
  assumes "Classifier (v_types v n) n = Some fs"
  shows "\<exists>t lbrace elts. n = CompositeLit t lbrace elts \<and>
       Visit v n = (case (if v_in v \<noteq> None then key_loop v elts fs 0 else Inr v) of
                      Inl e \<Rightarrow> Inl e | Inr v' \<Rightarrow> Inr (v'\<lparr>v_fixed := True\<rparr>))"
proof (cases n)
  case (CompositeLit t lbrace elts)
  then show ?thesis using assms by (simp add: Visit_CompositeLit)
qed (use assms in \<open>simp_all add: Classifier_def\<close>)

text \<open>C2: a composite literal whose resolved type, unwrapped from one pointer and one
  named type, is not a struct, or is a struct without fields, or with a number of fields
  other than the number of elements, or whose first element is a key-value expression,
  gets no edit and leaves the changed flag alone: \<^verbatim>\<open>Visit\<close> returns the visitor as it
  was.\<close>

theorem Visit_not_eligible:
  assumes "v_types v (CompositeLit t lbrace elts) = Some ty"
    and "(\<forall>fs. unwrap_named (unwrap_reference ty) \<noteq> Struct fs)
         \<or> (\<exists>fs. unwrap_named (unwrap_reference ty) = Struct fs
                \<and> (length fs = 0 \<or> length elts \<noteq> length fs
                    \<or> (elts \<noteq> [] \<and> isKeyValueExpr (hd elts))))"
  shows "Visit v (CompositeLit t lbrace elts) = Inr v"
proof -
  have "Classifier (Some ty) (CompositeLit t lbrace elts) = None"
    using assms(2) by (auto simp: Classifier_def split: gotype.splits)
  then show ?thesis using assms(1) by (simp add: Visit_CompositeLit)
qed

theorem Visit_not_eligible_witness:
  "Visit (ex_v\<lparr>v_types := [ex_slice_lit \<mapsto> Slice (Basic ''int'')]\<rparr>) ex_slice_lit
     = Inr (ex_v\<lparr>v_types := [ex_slice_lit \<mapsto> Slice (Basic ''int'')]\<rparr>)
   \<and> Visit (ex_v\<lparr>v_types := [ex_lit2 \<mapsto> ex_T]\<rparr>) ex_lit2
     = Inr (ex_v\<lparr>v_types := [ex_lit2 \<mapsto> ex_T]\<rparr>)"
  using Visit_not_eligible [of "ex_v\<lparr>v_types := [ex_slice_lit \<mapsto> Slice (Basic ''int'')]\<rparr>"
      "Some (Node 9 [Node 11 []])" 14 "[Node 15 [], Node 18 [], Node 21 []]" "Slice (Basic ''int'')"]
    Visit_not_eligible [of "ex_v\<lparr>v_types := [ex_lit2 \<mapsto> ex_T]\<rparr>"
      "Some (Node 47 [])" 48
      "[KeyValueExpr (Node 49 []) (Node 52 []), KeyValueExpr (Node 55 []) (Node 58 [])]" ex_T]
  by (simp add: ex_slice_lit_def ex_lit2_def ex_T_def unwrap_named_def unwrap_reference_def)

subsection \<open>The edits of an eligible literal\<close>

lemma key_loop_run:
  assumes "length elts = NumFields s"
    and "\<forall>j < length elts. v_file v (Pos (elts ! j)) = Inr (offs ! j)"
    and "i \<le> length elts"
  shows "key_loop v elts s i =
           Inr (v\<lparr>v_added := v_added v @
                   map (\<lambda>j. \<lparr>chunk_offset = offs ! j, chunk_b = Name (s ! j) @ '': ''\<rparr>)
                       [i ..< length elts]\<rparr>)"
  using assms
proof (induction "length elts - i" arbitrary: i v)
  case 0
  then have "i = length elts" by simp
  then show ?case using 0 by (simp add: key_loop.simps)
next
  case (Suc k)
  then have lt: "i < length elts" by simp
  let ?v1 = "v\<lparr>v_added := v_added v @ [\<lparr>chunk_offset = offs ! i, chunk_b = Name (s ! i) @ '': ''\<rparr>]\<rparr>"
  have w: "writeAfter v (Pos (elts ! i)) (Name (s ! i) @ '': '') = Inr ?v1"
    using Suc.prems(2) lt by (simp add: writeAfter_def)
  have k: "k = length elts - Suc i" using Suc.hyps(2) by simp
  have f: "\<forall>j<length elts. v_file ?v1 (Pos (elts ! j)) = Inr (offs ! j)"
    using Suc.prems(2) by simp
  have ih: "key_loop ?v1 elts s (Suc i) =
     Inr (?v1\<lparr>v_added := v_added ?v1 @
                   map (\<lambda>j. \<lparr>chunk_offset = offs ! j, chunk_b = Name (s ! j) @ '': ''\<rparr>)
                       [Suc i ..< length elts]\<rparr>)"
    using Suc.hyps(1)[OF k Suc.prems(1) f] lt by simp
  have "key_loop v elts s i = key_loop ?v1 elts s (Suc i)"
    using lt Suc.prems(1) w by (subst key_loop.simps) simp
  then show ?case using ih lt by (simp add: upt_conv_Cons)
qed

text \<open>C3: for an eligible literal, with the input bytes present, \<^verbatim>\<open>Visit\<close> appends
  exactly one edit per element, as many as the literal has elements; the edit of
  element \<open>j\<close> is at the offset of that element's start and its text is the name of
  field \<open>j\<close> followed by a colon and a space. The changed flag is set.\<close>

theorem Visit_eligible:
  assumes "v_types v (CompositeLit t lbrace elts) = Some typ"
    and "assertStructType typ = Some s"
    and "NumFields s \<noteq> 0"
    and "length elts = NumFields s"
    and "\<not> isKeyValueExpr (elts ! 0)"
    and "v_in v = Some bs"
    and "\<forall>j < length elts. v_file v (Pos (elts ! j)) = Inr (offs ! j)"
  shows "Visit v (CompositeLit t lbrace elts) =
           Inr (v\<lparr>v_added := v_added v @
                   map (\<lambda>j. \<lparr>chunk_offset = offs ! j, chunk_b = Name (s ! j) @ '': ''\<rparr>)
                       [0 ..< length elts],
                  v_fixed := True\<rparr>)
         \<and> length (map (\<lambda>j. \<lparr>chunk_offset = offs ! j, chunk_b = Name (s ! j) @ '': ''\<rparr>)
                       [0 ..< length elts]) = length elts"
proof -
  have "key_loop v elts s 0 =
           Inr (v\<lparr>v_added := v_added v @
                   map (\<lambda>j. \<lparr>chunk_offset = offs ! j, chunk_b = Name (s ! j) @ '': ''\<rparr>)
                       [0 ..< length elts]\<rparr>)"
    using key_loop_run[OF assms(4) assms(7), of 0] by simp
  then show ?thesis
    using assms(1-6) by (simp add: Visit_def)
qed

theorem Visit_eligible_witness:
  "Visit ex_v ex_lit =
     Inr (ex_v\<lparr>v_added := [\<lparr>chunk_offset = 48, chunk_b = ''X: ''\<rparr>,
                             \<lparr>chunk_offset = 51, chunk_b = ''Y: ''\<rparr>],
                v_fixed := True\<rparr>)"
  using Visit_eligible [of ex_v "Some (Node 47 [])" 48 "[Node 49 [], Node 52 []]" ex_T
      "[(''X'', Basic ''int''), (''Y'', Basic ''int'')]" ex_src "[48, 51]"]
  by (simp add: ex_v_def ex_lit_def ex_types_def ex_T_def assertStructType_def NumFields_def
      Name_def ex_Offset_def less_Suc_eq upt_rec)

section \<open>Properties of the patch applier\<close>

lemma sort_Slice_sorted:
  assumes "sort_Slice srt"
  shows "sorted (map chunk_offset (srt cs))"
proof -
  have "sorted_wrt (\<lambda>x y. \<not> chunk_offset y < chunk_offset x) (srt cs)"
    using assms by (simp add: sort_Slice_def)
  then have "sorted_wrt (\<lambda>x y. chunk_offset x \<le> chunk_offset y) (srt cs)"
    by (rule sorted_wrt_mono_rel[rotated]) simp
  then show ?thesis by (simp add: sorted_map)
qed

lemma sort_Slice_set:
  assumes "sort_Slice srt"
  shows "set (srt cs) = set cs"
proof -
  have "mset (srt cs) = mset cs" using assms by (simp add: sort_Slice_def)
  then show ?thesis by (rule mset_eq_setD)
qed

lemma sort_Slice_sort_key: "sort_Slice (sort_key chunk_offset)"
proof -
  have a: "sorted_wrt (\<lambda>x y. \<not> chunk_offset y < chunk_offset x) (sort_key chunk_offset cs)" for cs
  proof -
    have "sorted (map chunk_offset (sort_key chunk_offset cs))" by simp
    then have "sorted_wrt (\<lambda>x y. chunk_offset x \<le> chunk_offset y) (sort_key chunk_offset cs)"
      by (simp add: sorted_map)
    then show ?thesis by (rule sorted_wrt_mono_rel[rotated]) simp
  qed
  show ?thesis by (simp add: sort_Slice_def a)
qed

lemma out_loop_scan:
  assumes "sorted (map chunk_offset cs)"
    and "\<forall>c \<in> set cs. cursor \<le> chunk_offset c \<and> chunk_offset c \<le> length inp"
    and "cursor \<le> length inp"
  shows "out_loop inp cs acc cursor = Inr (acc @ scan inp cursor cs)"
  using assms
proof (induction cs arbitrary: acc cursor)
  case Nil
  then show ?case by (simp add: slice_def)
next
  case (Cons c cs)
  have s: "slice inp cursor (chunk_offset c) =
             Inr (take (chunk_offset c - cursor) (drop cursor inp))"
    using Cons.prems by (simp add: slice_def)
  have "out_loop inp cs (acc @ take (chunk_offset c - cursor) (drop cursor inp) @ chunk_b c)
          (chunk_offset c) =
        Inr ((acc @ take (chunk_offset c - cursor) (drop cursor inp) @ chunk_b c)
              @ scan inp (chunk_offset c) cs)"
    using Cons.prems by (intro Cons.IH) auto
  then show ?case using s by simp
qed

lemma scan_insert_all:
  assumes "sorted (map chunk_offset cs)"
    and "\<forall>c \<in> set cs. cursor \<le> chunk_offset c \<and> chunk_offset c \<le> length orig"
    and "cursor \<le> length orig"
  shows "take cursor (insert_all cs orig) = take cursor orig
         \<and> drop cursor (insert_all cs orig) = scan orig cursor cs"
  using assms
proof (induction cs arbitrary: cursor)
  case Nil
  then show ?case by (simp add: insert_all_def)
next
  case (Cons c cs)
  let ?o = "chunk_offset c"
  let ?r = "insert_all cs orig"
  have co: "cursor \<le> ?o" "?o \<le> length orig" using Cons.prems by auto
  have ih: "take ?o ?r = take ?o orig \<and> drop ?o ?r = scan orig ?o cs"
    using Cons.prems by (intro Cons.IH) auto
  have ia: "insert_all (c # cs) orig = take ?o orig @ chunk_b c @ scan orig ?o cs"
    using ih by (simp add: insert_all_def insert_chunk_def)
  have len: "length (take ?o orig) = ?o" using co by simp
  have t: "take cursor (insert_all (c # cs) orig) = take cursor orig"
    using co by (simp add: ia min_def)
  have "drop cursor (insert_all (c # cs) orig)
          = drop cursor (take ?o orig) @ chunk_b c @ scan orig ?o cs"
    using co by (simp add: ia)
  also have "drop cursor (take ?o orig) = take (?o - cursor) (drop cursor orig)"
    by (simp add: drop_take)
  finally show ?case using t by simp
qed

text \<open>C5: given the original bytes and edits with offsets inside the original,
  \<^verbatim>\<open>visitor.out\<close> computes what the Patch Applier of the specification does: the edits
  are sorted by ascending offset, and one scan with a cursor from 0 copies, for each
  edit, the original bytes from the cursor up to the edit's offset, then the edit's
  text, moves the cursor to that offset, and at the end copies the rest of the
  original.\<close>

theorem out_refines_Patch_Applier:
  assumes "sort_Slice srt"
    and "v_in v = Some orig"
    and "\<forall>c \<in> set (v_added v). chunk_offset c \<le> length orig"
  shows "out srt v = Inr (Patch_Applier srt orig (v_added v))
         \<and> sorted (map chunk_offset (srt (v_added v)))
         \<and> mset (srt (v_added v)) = mset (v_added v)"
proof -
  have "\<forall>c \<in> set (srt (v_added v)). 0 \<le> chunk_offset c \<and> chunk_offset c \<le> length orig"
    using assms(3) sort_Slice_set[OF assms(1)] by simp
  then have "out_loop orig (srt (v_added v)) [] 0 = Inr ([] @ scan orig 0 (srt (v_added v)))"
    using sort_Slice_sorted[OF assms(1)] by (intro out_loop_scan) auto
  then have "out srt v = Inr (Patch_Applier srt orig (v_added v))"
    using assms(2) by (simp add: out_def Patch_Applier_def)
  moreover have "mset (srt (v_added v)) = mset (v_added v)"
    using assms(1) by (simp add: sort_Slice_def)
  ultimately show ?thesis using sort_Slice_sorted[OF assms(1)] by simp
qed

theorem out_refines_Patch_Applier_witness:
  "out (sort_key chunk_offset)
       (ex_v\<lparr>v_added := [\<lparr>chunk_offset = 51, chunk_b = ''Y: ''\<rparr>,
                          \<lparr>chunk_offset = 48, chunk_b = ''X: ''\<rparr>]\<rparr>) = Inr ex_patched"
  using out_refines_Patch_Applier [of "sort_key chunk_offset"
      "ex_v\<lparr>v_added := [\<lparr>chunk_offset = 51, chunk_b = ''Y: ''\<rparr>,
                          \<lparr>chunk_offset = 48, chunk_b = ''X: ''\<rparr>]\<rparr>" ex_src]
    sort_Slice_sort_key
  by (simp add: ex_v_def ex_src_def ex_patched_def Patch_Applier_def)

lemma out_only_inserts:
  assumes "sort_Slice srt"
    and "v_in v = Some orig"
    and "\<forall>c \<in> set (v_added v). chunk_offset c \<le> length orig"
  shows "out srt v = Inr (insert_all (srt (v_added v)) orig)"
proof -
  have b: "\<forall>c \<in> set (srt (v_added v)). 0 \<le> chunk_offset c \<and> chunk_offset c \<le> length orig"
    using assms(3) sort_Slice_set[OF assms(1)] by simp
  have "out_loop orig (srt (v_added v)) [] 0 = Inr ([] @ scan orig 0 (srt (v_added v)))"
    using sort_Slice_sorted[OF assms(1)] b by (intro out_loop_scan) auto
  moreover have "drop 0 (insert_all (srt (v_added v)) orig) = scan orig 0 (srt (v_added v))"
    using scan_insert_all[OF sort_Slice_sorted[OF assms(1)] b, of ] by simp
  ultimately show ?thesis using assms(2) by (simp add: out_def)
qed

text \<open>C1: as amended. The bytes that \<^verbatim>\<open>visitor.out\<close> builds are the original bytes
  with only the texts of the edits inserted, each before the byte at its offset, every
  original byte kept and in order; what \<^verbatim>\<open>fixFile\<close> then writes is the result of
  \<^verbatim>\<open>format.Source\<close> on these bytes.\<close>

theorem emit_formats_inserted_original:
  assumes "sort_Slice (sortSlice e)"
    and "v_in v = Some orig"
    and "\<forall>c \<in> set (v_added v). chunk_offset c \<le> length orig"
  shows "out (sortSlice e) v = Inr (insert_all (sortSlice e (v_added v)) orig)
         \<and> emit e w v =
             (case Source e (insert_all (sortSlice e (v_added v)) orig) of
                Inl err \<Rightarrow> (Inl err, [])
              | Inr formatted \<Rightarrow>
                  (case Copy e w formatted of
                     (written, Some err) \<Rightarrow> (Inl err, written)
                   | (written, None) \<Rightarrow> (Inr (v_fixed v), written)))"
proof -
  have o: "out (sortSlice e) v = Inr (insert_all (sortSlice e (v_added v)) orig)"
    using assms by (rule out_only_inserts)
  then show ?thesis by (simp add: emit_def)
qed

theorem emit_formats_inserted_original_witness:
  "out (sort_key chunk_offset)
       (ex_v\<lparr>v_added := [\<lparr>chunk_offset = 51, chunk_b = ''Y: ''\<rparr>,
                          \<lparr>chunk_offset = 48, chunk_b = ''X: ''\<rparr>]\<rparr>) = Inr ex_patched
   \<and> emit ex_ext Buffer
       (ex_v\<lparr>v_added := [\<lparr>chunk_offset = 51, chunk_b = ''Y: ''\<rparr>,
                          \<lparr>chunk_offset = 48, chunk_b = ''X: ''\<rparr>]\<rparr>)
       = (Inr False, ex_patched @ [CHR 0x0A])"
  using emit_formats_inserted_original [of ex_ext
      "ex_v\<lparr>v_added := [\<lparr>chunk_offset = 51, chunk_b = ''Y: ''\<rparr>,
                          \<lparr>chunk_offset = 48, chunk_b = ''X: ''\<rparr>]\<rparr>" ex_src Buffer]
    sort_Slice_sort_key
  by (simp add: ex_ext_def ex_v_def ex_src_def ex_patched_def insert_all_def insert_chunk_def
      ex_Source_def Copy_def)

text \<open>The final output is not the original with only the insertions: on the example
  file the formatter adds the missing final newline.\<close>

theorem fixFile_output_not_only_insertions:
  "fixFile ex_ext ex_world (Some Stdout) None ''/p/a.go'' = (Inr True, ex_patched @ [CHR 0x0A])
   \<and> insert_all [\<lparr>chunk_offset = 48, chunk_b = ''X: ''\<rparr>,
                  \<lparr>chunk_offset = 51, chunk_b = ''Y: ''\<rparr>] ex_src = ex_patched
   \<and> snd (fixFile ex_ext ex_world (Some Stdout) None ''/p/a.go'')
       \<noteq> insert_all [\<lparr>chunk_offset = 48, chunk_b = ''X: ''\<rparr>,
                      \<lparr>chunk_offset = 51, chunk_b = ''Y: ''\<rparr>] ex_src"
  by code_simp

section \<open>Properties of the traversal\<close>

lemma key_loop_frame:
  "key_loop v elts s i = Inr v' \<Longrightarrow>
     v_file v' = v_file v \<and> v_types v' = v_types v \<and> v_in v' = v_in v \<and> v_fixed v' = v_fixed v"
proof (induction v elts s i rule: key_loop.induct)
  case (1 v elts s i)
  show ?case
  proof (cases "i < NumFields s")
    case False
    then show ?thesis using "1.prems" by (simp add: key_loop.simps)
  next
    case True
    note lt = this
    show ?thesis
    proof (cases "length elts \<le> i")
      case True
      then show ?thesis using "1.prems" lt by (simp add: key_loop.simps)
    next
      case False
      then obtain v1 where
        w: "writeAfter v (Pos (elts ! i)) (Name (s ! i) @ '': '') = Inr v1"
        and r: "key_loop v1 elts s (Suc i) = Inr v'"
        using "1.prems" lt by (subst (asm) key_loop.simps) (auto split: sum.splits)
      have f1: "v_file v1 = v_file v \<and> v_types v1 = v_types v \<and> v_in v1 = v_in v
                \<and> v_fixed v1 = v_fixed v"
        using w by (auto simp: writeAfter_def split: sum.splits)
      show ?thesis using "1.IH"[OF lt False w r] f1 by simp
    qed
  qed
qed


lemma Visit_frame:
  assumes "Visit v n = Inr v'"
  shows "carries v v' (Classifier (v_types v n) n \<noteq> None)"
proof (cases "Classifier (v_types v n) n")
  case None
  then show ?thesis using assms Visit_Classifier_None[of v n] by (simp add: carries_def)
next
  case (Some fs)
  from Visit_Classifier_Some[OF Some] obtain t lbrace elts where
    n: "n = CompositeLit t lbrace elts"
    and V: "Visit v n = (case (if v_in v \<noteq> None then key_loop v elts fs 0 else Inr v) of
                      Inl e \<Rightarrow> Inl e | Inr v' \<Rightarrow> Inr (v'\<lparr>v_fixed := True\<rparr>))"
    by blast
  show ?thesis
  proof (cases "v_in v \<noteq> None")
    case True
    then obtain v1 where k: "key_loop v elts fs 0 = Inr v1" and v': "v' = v1\<lparr>v_fixed := True\<rparr>"
      using assms V by (auto split: sum.splits)
    show ?thesis using key_loop_frame[OF k] v' Some by (simp add: carries_def)
  next
    case False
    then show ?thesis using assms V Some by (auto simp: carries_def)
  qed
qed

lemma carriesD:
  assumes "carries v v' b"
  shows "v_file v' = v_file v" and "v_types v' = v_types v" and "v_in v' = v_in v"
    and "v_fixed v' = (v_fixed v \<or> b)" and "\<not> v_fixed v' \<Longrightarrow> v' = v"
  using assms unfolding carries_def by blast+

lemma carriesI:
  assumes "v_file v' = v_file v" and "v_types v' = v_types v" and "v_in v' = v_in v"
    and "v_fixed v' = (v_fixed v \<or> b)" and "\<not> v_fixed v' \<Longrightarrow> v' = v"
  shows "carries v v' b"
  using assms unfolding carries_def by blast

lemma carries_trans:
  assumes "carries v v1 b1" and "carries v1 v2 b2"
  shows "carries v v2 (b1 \<or> b2)"
proof (rule carriesI)
  show "v_file v2 = v_file v"
    using carriesD(1)[OF assms(1)] carriesD(1)[OF assms(2)] by simp
  show "v_types v2 = v_types v"
    using carriesD(2)[OF assms(1)] carriesD(2)[OF assms(2)] by simp
  show "v_in v2 = v_in v"
    using carriesD(3)[OF assms(1)] carriesD(3)[OF assms(2)] by simp
  show "v_fixed v2 = (v_fixed v \<or> b1 \<or> b2)"
    using carriesD(4)[OF assms(1)] carriesD(4)[OF assms(2)] by blast
  show "v2 = v" if n: "\<not> v_fixed v2"
  proof -
    have "\<not> v_fixed v1" using n carriesD(4)[OF assms(2)] by blast
    then have "v1 = v" by (rule carriesD(5)[OF assms(1)])
    moreover have "v2 = v1" using n by (rule carriesD(5)[OF assms(2)])
    ultimately show ?thesis by simp
  qed
qed

lemma carries_types: "carries v v' b \<Longrightarrow> v_types v' = v_types v"
  by (rule carriesD(2))

lemma any_eligible_simps:
  "any_eligible tys [] = False"
  "any_eligible tys (n # ns) = (Classifier (tys n) n \<noteq> None \<or> any_eligible tys ns)"
  "any_eligible tys (xs @ ys) = (any_eligible tys xs \<or> any_eligible tys ys)"
  by (auto simp: any_eligible_def)


lemma Walk_frame:
  "Walk v n = Inr v' \<Longrightarrow> carries v v' (any_eligible (v_types v) (nodes n))"
  "walkList v ns = Inr v' \<Longrightarrow> carries v v' (any_eligible (v_types v) (nodesList ns))"
proof (induction v n and v ns arbitrary: v' and v' rule: Walk_walkList.induct)
  case (1 v t lbrace elts)
  let ?n = "CompositeLit t lbrace elts"
  from "1.prems" obtain v1 where V: "Visit v ?n = Inr v1"
    by (auto split: sum.splits)
  note F1 = Visit_frame[OF V]
  note T1 = carries_types[OF F1]
  show ?case
  proof (cases t)
    case None
    then have W: "walkList v1 elts = Inr v'" using "1.prems" V by simp
    have "carries v1 v' (any_eligible (v_types v) (nodesList elts))"
      using "1.IH"(1)[OF V None W] T1 by simp
    from carries_trans[OF F1 this] show ?thesis
      using None by (simp add: any_eligible_simps)
  next
    case (Some ty)
    then obtain v2 where W1: "Walk v1 ty = Inr v2" and W2: "walkList v2 elts = Inr v'"
      using "1.prems" V by (auto split: sum.splits)
    have F2: "carries v1 v2 (any_eligible (v_types v) (nodes ty))"
      using "1.IH"(2)[OF V Some W1] T1 by simp
    have F3: "carries v2 v' (any_eligible (v_types v) (nodesList elts))"
      using "1.IH"(3)[OF V Some W1 W2] T1 carries_types[OF F2] by simp
    from carries_trans[OF carries_trans[OF F1 F2] F3] show ?thesis
      using Some by (simp add: any_eligible_simps disj_assoc)
  qed
next
  case (2 v k x)
  from "2.prems" obtain v1 v2 where V: "Visit v (KeyValueExpr k x) = Inr v1"
    and W1: "Walk v1 k = Inr v2" and W2: "Walk v2 x = Inr v'"
    by (auto split: sum.splits)
  note F1 = Visit_frame[OF V]
  note T1 = carries_types[OF F1]
  have F2: "carries v1 v2 (any_eligible (v_types v) (nodes k))"
    using "2.IH"(1)[OF V W1] T1 by simp
  have F3: "carries v2 v' (any_eligible (v_types v) (nodes x))"
    using "2.IH"(2)[OF V W1 W2] T1 carries_types[OF F2] by simp
  from carries_trans[OF carries_trans[OF F1 F2] F3] show ?case
    by (simp add: any_eligible_simps disj_assoc)
next
  case (3 v p cs)
  from "3.prems" obtain v1 where V: "Visit v (Node p cs) = Inr v1"
    and W: "walkList v1 cs = Inr v'"
    by (auto split: sum.splits)
  note F1 = Visit_frame[OF V]
  have "carries v1 v' (any_eligible (v_types v) (nodesList cs))"
    using "3.IH"[OF V W] carries_types[OF F1] by simp
  from carries_trans[OF F1 this] show ?case by (simp add: any_eligible_simps)
next
  case (4 v)
  then show ?case by (auto simp: carries_def any_eligible_simps)
next
  case (5 v n ns)
  from "5.prems" obtain v1 where W1: "Walk v n = Inr v1" and W2: "walkList v1 ns = Inr v'"
    by (auto split: sum.splits)
  note F1 = "5.IH"(1)[OF W1]
  have "carries v1 v' (any_eligible (v_types v) (nodesList ns))"
    using "5.IH"(2)[OF W1 W2] carries_types[OF F1] by simp
  from carries_trans[OF F1 this] show ?case by (simp add: any_eligible_simps)
qed



section \<open>A second run on the patched text\<close>





lemma Walk_ident_unchanged: "Walk v (Node p []) = Inr v"
  by (simp add: Visit_def)









section \<open>Properties of \<^verbatim>\<open>fixFile\<close> and \<^verbatim>\<open>main\<close>\<close>

lemma findPkgForFile_Check:
  "findPkgForFile (e\<lparr>Check := c\<rparr>) ps path = findPkgForFile e ps path"
  by (induction ps) (auto split: option.splits)

lemma loadFile_Check: "loadFile (e\<lparr>Check := c\<rparr>) wld r path = loadFile e wld r path"
  by (simp add: loadFile_def findPkgForFile_Check
           cong: sum.case_cong option.case_cong if_cong)

lemma Copy_Check: "Copy (e\<lparr>Check := c\<rparr>) w bs = Copy e w bs"
  by (cases w) (simp_all add: Copy_def)

lemma emit_Check: "emit (e\<lparr>Check := c\<rparr>) w v = emit e w v"
  by (simp add: emit_def Copy_Check cong: sum.case_cong option.case_cong prod.case_cong)

lemma ReadFile_Check: "ReadFile (e\<lparr>Check := c\<rparr>) wld path = ReadFile e wld path"
  by (simp add: ReadFile_def)

text \<open>C6: a composite literal without an entry in the type table gets no edit, leaves
  the changed flag alone and does not fail: \<^verbatim>\<open>Visit\<close> returns the visitor as it was. The
  error that the type checker returns for the unit is ignored: \<^verbatim>\<open>fixFile\<close> gives the
  same result whatever that error is, so the literals whose types were resolved are
  keyed all the same.\<close>

theorem untyped_literal_and_Check_error_ignored:
  "(v_types v (CompositeLit t lbrace elts) = None \<longrightarrow>
      Visit v (CompositeLit t lbrace elts) = Inr v)
   \<and> fixFile (e\<lparr>Check := (\<lambda>cwd fs. (err cwd fs, snd (Check e cwd fs)))\<rparr>) wld w r path
       = fixFile e wld w r path"
proof -
  have "fixFile (e\<lparr>Check := (\<lambda>cwd fs. (err cwd fs, snd (Check e cwd fs)))\<rparr>) wld w r path
       = fixFile e wld w r path"
    unfolding fixFile_def loadFile_Check emit_Check ReadFile_Check
    by (simp cong: sum.case_cong option.case_cong prod.case_cong if_cong)
  then show ?thesis by (simp add: Visit_def)
qed

theorem untyped_literal_and_Check_error_ignored_witness:
  "Visit (ex_v\<lparr>v_types := Map.empty\<rparr>) ex_lit = Inr (ex_v\<lparr>v_types := Map.empty\<rparr>)
   \<and> fixFile (ex_ext\<lparr>Check := (\<lambda>cwd fs. (Some (Err ''undeclared name: y''), ex_types))\<rparr>)
        ex_world (Some Buffer) None ''/p/a.go''
       = (Inr True, ex_patched @ [CHR 0x0A])"
proof -
  have a: "fixFile ex_ext ex_world (Some Buffer) None ''/p/a.go'' = (Inr True, ex_patched @ [CHR 0x0A])"
    by code_simp
  have b: "snd (Check ex_ext cwd fs) = ex_types" for cwd fs
    by (simp add: ex_ext_def)
  show ?thesis
    using untyped_literal_and_Check_error_ignored [where v = "ex_v\<lparr>v_types := Map.empty\<rparr>"
      and t = "Some (Node 47 [])" and lbrace = 48 and elts = "[Node 49 [], Node 52 []]"
      and e = ex_ext and err = "\<lambda>cwd fs. Some (Err ''undeclared name: y'')"
      and wld = ex_world and w = "Some Buffer" and r = None and path = "''/p/a.go''"]
    by (simp add: a b ex_lit_def)
qed





text \<open>C9: with \<^verbatim>\<open>-w\<close> and no path, \<^verbatim>\<open>main\<close> writes the usage error to standard
  error and exits with status 1; nothing of the environment is consulted, so no
  parsing, type checking or patching takes place.\<close>

theorem main_overwrite_stdin_usage_error:
  "main e True list [] wld = (1, wld\<lparr>w_stderr := w_stderr wld @ [''can't use -w on stdin'']\<rparr>)"
  by (simp add: main_def)

text \<open>C7: in the default mode on standard input the run does not succeed. After
  parsing and type checking, \<^verbatim>\<open>fixFile\<close> reads the input bytes from the file named by
  the empty path (line 168), which fails; the run ends with status 1, the error on
  standard error and nothing on standard output. Here on the input \<^verbatim>\<open>package p\<close>.\<close>

theorem main_stdin_default_fails:
  "fst (main ex_plain_ext False False [] ex_plain_world) = 1
   \<and> w_stdout (snd (main ex_plain_ext False False [] ex_plain_world)) = []
   \<and> w_stderr (snd (main ex_plain_ext False False [] ex_plain_world))
       = [''open : no such file or directory'']"
  by code_simp

text \<open>The same for every environment and every input on the stream.\<close>

lemma fixFile_stdin_output_fails:
  "w \<noteq> None \<Longrightarrow> \<exists>err. fixFile e wld w r [] = (Inl err, [])"
  by (auto simp: fixFile_def ReadFile_def Let_def split: sum.splits prod.splits)

lemma main_stdin_default_never_succeeds:
  "fst (main e False False [] wld) \<noteq> 0 \<and> w_stdout (snd (main e False False [] wld)) = w_stdout wld"
proof -
  obtain err where "fixFile e wld (Some Stdout) (Some (w_stdin wld)) [] = (Inl err, [])"
    using fixFile_stdin_output_fails[of "Some Stdout" e wld "Some (w_stdin wld)"] by auto
  then show ?thesis
    by (cases err) (simp_all add: main_def written_to_def fatal_def reportErrs_def)
qed

text \<open>C10: in overwrite mode, a path that \<^verbatim>\<open>fixFile\<close> processes without error is
  written back with the bytes \<^verbatim>\<open>fixFile\<close> produced, whether the changed flag is true
  or false, before the next path is taken up. When the flag is false these bytes are
  the formatter's rendering of the file as it was read.\<close>

theorem main_overwrite_writes_unconditionally:
  assumes "Abs e p = Inr absPath"
    and "fixFile e wld (Some Buffer) None absPath = (Inr fixed, buf)"
    and "WriteFile_err e p = None"
    and "sort_Slice (sortSlice e)"
  shows "main e True list (p # rest) wld =
           main_paths e True list rest
             ((if fixed \<and> list then Println e p wld else wld)
                \<lparr>w_disk := (w_disk wld)(resolve e p \<mapsto> buf)\<rparr>)
         \<and> (\<not> fixed \<longrightarrow> (\<exists>orig. ReadFile e wld absPath = Inr orig \<and> Source e orig = Inr buf))"
proof -
  have m: "main e True list (p # rest) wld =
           main_paths e True list rest
             ((if fixed \<and> list then Println e p wld else wld)
                \<lparr>w_disk := (w_disk wld)(resolve e p \<mapsto> buf)\<rparr>)"
    using assms(1-3) by (simp add: main_def written_to_def WriteFile_def Println_def)
  have u: "\<exists>orig. ReadFile e wld absPath = Inr orig \<and> Source e orig = Inr buf" if nf: "\<not> fixed"
  proof -
    from assms(2) obtain pkg fl where l: "loadFile e wld None absPath = Inr (pkg, fl)"
      by (cases "loadFile e wld None absPath") (auto simp: fixFile_def)
    from assms(2) l obtain cwd where g: "Getwd e = Inr cwd"
      by (cases "Getwd e") (auto simp: fixFile_def)
    from assms(2) l g obtain orig where r: "ReadFile e wld absPath = Inr orig"
      by (cases "ReadFile e wld absPath") (auto simp: fixFile_def Let_def)
    let ?v1 = "\<lparr>v_file = f_File fl, v_types = snd (Check e cwd (map snd pkg)),
                v_in = Some orig, v_added = [], v_fixed = False\<rparr>"
    from assms(2) l g r obtain v2 where W: "Walk ?v1 (f_node fl) = Inr v2"
      by (cases "Walk ?v1 (f_node fl)") (auto simp: fixFile_def Let_def)
    have E: "emit e Buffer v2 = (Inr fixed, buf)"
      using assms(2) l g r W by (simp add: fixFile_def Let_def)
    have "v_fixed v2 = fixed"
      using E by (auto simp: emit_def split: sum.splits prod.splits option.splits)
    then have "v2 = ?v1" using nf carriesD(5)[OF Walk_frame(1)[OF W]] by simp
    moreover have "sortSlice e [] = []"
    proof -
      have "mset (sortSlice e []) = mset ([] :: chunk list)"
        using assms(4) unfolding sort_Slice_def by blast
      then show ?thesis by simp
    qed
    ultimately have o: "out (sortSlice e) v2 = Inr orig"
      by (simp add: out_def slice_def)
    have "Source e orig = Inr buf"
      using E o by (auto simp: emit_def Copy_def split: sum.splits)
    then show ?thesis using r by simp
  qed
  show ?thesis using m u by blast
qed

theorem main_overwrite_writes_unconditionally_witness:
  "fixFile ex_plain_ext ex_plain_world (Some Buffer) None ''/p/a.go'' = (Inr False, ''package p'' @ [CHR 0x0A])
   \<and> main ex_plain_ext True False [''a.go''] ex_plain_world
       = (0, ex_plain_world\<lparr>w_disk := (w_disk ex_plain_world)
                                         (''/p/a.go'' \<mapsto> ''package p'' @ [CHR 0x0A])\<rparr>)"
proof -
  have f: "fixFile ex_plain_ext ex_plain_world (Some Buffer) None ''/p/a.go''
             = (Inr False, ''package p'' @ [CHR 0x0A])"
    by code_simp
  have s: "sort_Slice (sortSlice ex_plain_ext)"
    using sort_Slice_sort_key by (simp add: ex_plain_ext_def ex_ext_def)
  have a: "Abs ex_plain_ext ''a.go'' = Inr ''/p/a.go''" by (simp add: ex_plain_ext_def ex_ext_def)
  have w: "WriteFile_err ex_plain_ext ''a.go'' = None" by (simp add: ex_plain_ext_def ex_ext_def)
  have r: "resolve ex_plain_ext ''a.go'' = ''/p/a.go''" by (simp add: ex_plain_ext_def ex_ext_def)
  show ?thesis
    using main_overwrite_writes_unconditionally [OF a f w s, of False "[]"]
    by (simp add: f r)
qed

end
